theory Spec2Isabelle
  imports Main
begin

section \<open>Data model\<close>

text \<open>
  The dashboard of \<^verbatim>\<open>app.py\<close> keeps its tasks as a Python list of dictionaries, each
  built by \<^verbatim>\<open>add_task\<close> with the same eight keys. A dictionary with fixed keys is
  modelled as a record.

  Clock readings (\<^verbatim>\<open>datetime.now()\<close>) are microseconds on the local wall clock, counted
  from midnight of day 0; a calendar date (\<^verbatim>\<open>datetime.date\<close>) is a day number. The
  text forms the code stores (\<^verbatim>\<open>str(deadline)\<close>, \<^verbatim>\<open>str(datetime.now().date())\<close>) and
  reads back (\<^verbatim>\<open>pd.to_datetime\<close>) are kept as the dates they denote. The float
  \<^verbatim>\<open>datetime.now().timestamp()\<close> used as \<^verbatim>\<open>id\<close> is kept as the clock reading it
  is computed from: equal readings give equal ids.
\<close>

type_synonym datetime = int
type_synonym date = int

definition usec_per_day :: int where
  "usec_per_day = 86400000000"

definition date_of :: "datetime \<Rightarrow> date" where
  "date_of now = now div usec_per_day"

definition to_datetime :: "date \<Rightarrow> datetime" where
  "to_datetime d = d * usec_per_day"

definition timedelta :: "int \<Rightarrow> int" where
  "timedelta days = days * usec_per_day"

definition timestamp :: "datetime \<Rightarrow> int" where
  "timestamp now = now"

record task =
  task_id :: int
  name :: string
  description :: string
  deadline :: date
  created :: date
  status :: string
  priority :: string
  attachment :: string

definition status_names :: "string list" where
  "status_names = [''To Do'', ''In Progress'', ''Done'']"

definition priority_names :: "string list" where
  "priority_names = [''Low'', ''Medium'', ''High'']"

text \<open>What a select box can return: one of its options.\<close>

datatype status_opt = ToDo | InProgress | Done

datatype priority_opt = Low | Medium | High

fun status_str :: "status_opt \<Rightarrow> string" where
  "status_str ToDo = ''To Do''"
| "status_str InProgress = ''In Progress''"
| "status_str Done = ''Done''"

fun priority_str :: "priority_opt \<Rightarrow> string" where
  "priority_str Low = ''Low''"
| "priority_str Medium = ''Medium''"
| "priority_str High = ''High''"

text \<open>
  The file \<^verbatim>\<open>tasks.json\<close>: absent, present with text that \<^verbatim>\<open>json.load\<close> rejects, or
  present and holding the JSON array of task objects that \<^verbatim>\<open>json.dump\<close> wrote. The
  file is kept as the value it denotes, so the text layout (indentation, key order) is
  not part of the model.
\<close>

datatype json_file = Absent | Unparseable | Content "task list"

datatype error = JSONDecodeError | ValueError

datatype flash = Success string | Warning string

text \<open>
  How a handler leaves the script: \<open>Rerun\<close> is \<^verbatim>\<open>st.rerun()\<close>, which stops the run;
  \<open>Continue\<close> lets the script go on. Both carry the message shown, if any.
\<close>

datatype outcome = Continue "flash option" | Rerun "flash option"

record upload =
  file_name :: string
  file_bytes :: string

record state =
  tasks :: "task list"
  tasks_json :: json_file
  assets :: "string \<rightharpoonup> string"

section \<open>Helper functions\<close>

definition load_tasks :: "json_file \<Rightarrow> error + task list" where
  "load_tasks f =
     (case f of
        Content ts \<Rightarrow> Inr ts
      | Unparseable \<Rightarrow> Inl JSONDecodeError
      | Absent \<Rightarrow> Inr [])"

definition save_tasks :: "task list \<Rightarrow> state \<Rightarrow> state" where
  "save_tasks ts st = st\<lparr>tasks_json := Content ts\<rparr>"

text \<open>\<^verbatim>\<open>add_task\<close> reads the clock twice: once for the id, once for the creation date.\<close>

definition add_task ::
  "datetime \<Rightarrow> datetime \<Rightarrow> string \<Rightarrow> string \<Rightarrow> date \<Rightarrow> string \<Rightarrow> string \<Rightarrow> state \<Rightarrow> state" where
  "add_task now1 now2 nm desc dl prio attachment_path st =
     (let t = \<lparr>task_id = timestamp now1, name = nm, description = desc, deadline = dl,
                created = date_of now2, status = ''To Do'', priority = prio,
                attachment = attachment_path\<rparr>;
          st' = st\<lparr>tasks := tasks st @ [t]\<rparr>
      in save_tasks (tasks st') st')"

section \<open>Sidebar: the creation form\<close>

text \<open>
  \<open>submitted\<close> is the value of the form's submit button. A Python string is true when
  it is not empty.
\<close>

definition task_form ::
  "datetime \<Rightarrow> datetime \<Rightarrow> string \<Rightarrow> string \<Rightarrow> date \<Rightarrow> priority_opt \<Rightarrow> upload option \<Rightarrow> bool
     \<Rightarrow> state \<Rightarrow> outcome \<times> state" where
  "task_form now1 now2 nm desc dl prio file submitted st =
     (if submitted \<and> nm \<noteq> [] then
        (case file of
           None \<Rightarrow>
             (Rerun (Some (Success ''Task added!'')),
              add_task now1 now2 nm desc dl (priority_str prio) [] st)
         | Some f \<Rightarrow>
             (let filepath = ''assets/'' @ file_name f;
                  st1 = st\<lparr>assets := (assets st)(filepath \<mapsto> file_bytes f)\<rparr>
              in (Rerun (Some (Success ''Task added!'')),
                  add_task now1 now2 nm desc dl (priority_str prio) filepath st1)))
      else if submitted then (Continue (Some (Warning ''Task name required.'')), st)
      else (Continue None, st))"

section \<open>Python and widget primitives\<close>

text \<open>\<^verbatim>\<open>list.index\<close>: the position of the first equal element, \<^verbatim>\<open>ValueError\<close> if none.\<close>

fun index_of :: "'a list \<Rightarrow> 'a \<Rightarrow> error + nat" where
  "index_of [] x = Inl ValueError"
| "index_of (y # ys) x =
     (if y = x then Inr 0
      else (case index_of ys x of Inl e \<Rightarrow> Inl e | Inr n \<Rightarrow> Inr (Suc n)))"

text \<open>\<^verbatim>\<open>list.remove\<close>: drops the first equal element, \<^verbatim>\<open>ValueError\<close> if none.\<close>

definition list_remove :: "'a \<Rightarrow> 'a list \<Rightarrow> error + 'a list" where
  "list_remove x xs = (if x \<in> set xs then Inr (remove1 x xs) else Inl ValueError)"

text \<open>
  A widget returns what the user entered, and the default the script passes while the
  user has entered nothing (\<open>None\<close>). A select box is given its options and the index
  of the default.
\<close>

definition text_input :: "string \<Rightarrow> string option \<Rightarrow> string" where
  "text_input val entry = (case entry of None \<Rightarrow> val | Some s \<Rightarrow> s)"

definition date_input :: "date \<Rightarrow> date option \<Rightarrow> date" where
  "date_input val entry = (case entry of None \<Rightarrow> val | Some d \<Rightarrow> d)"

definition selectbox :: "string list \<Rightarrow> nat \<Rightarrow> string option \<Rightarrow> string" where
  "selectbox options index choice = (case choice of None \<Rightarrow> options ! index | Some s \<Rightarrow> s)"

text \<open>The widgets of one card of the board, all keyed by the task's id.\<close>

record widgets =
  edit_mode :: bool
  name_entry :: "string option"
  desc_entry :: "string option"
  deadline_entry :: "date option"
  priority_choice :: "priority_opt option"
  save_clicked :: bool
  status_choice :: "status_opt option"
  delete_clicked :: bool

section \<open>Task board with edit and delete\<close>

text \<open>
  The handlers of one card. The loop variable \<^verbatim>\<open>t\<close> refers to the element of
  \<^verbatim>\<open>tasks\<close> at the loop's position \<open>i\<close>, so an assignment to \<^verbatim>\<open>t[...]\<close> updates the
  list at \<open>i\<close>; no two positions share a dictionary, since \<^verbatim>\<open>json.load\<close> and
  \<^verbatim>\<open>add_task\<close> build a new one for each.
\<close>

definition save_changes :: "nat \<Rightarrow> string \<Rightarrow> string \<Rightarrow> date \<Rightarrow> string \<Rightarrow> state \<Rightarrow> outcome \<times> state" where
  "save_changes i new_name new_desc new_deadline new_priority st =
     (let t = (tasks st ! i)\<lparr>name := new_name, description := new_desc,
                               deadline := new_deadline, priority := new_priority\<rparr>;
          st' = st\<lparr>tasks := (tasks st)[i := t]\<rparr>
      in (Rerun (Some (Success ''Task updated!'')), save_tasks (tasks st') st'))"

definition update_status :: "nat \<Rightarrow> string \<Rightarrow> state \<Rightarrow> outcome \<times> state" where
  "update_status i new_status st =
     (let st' = st\<lparr>tasks := (tasks st)[i := (tasks st ! i)\<lparr>status := new_status\<rparr>]\<rparr>
      in (Rerun None, save_tasks (tasks st') st'))"

definition delete_task :: "task \<Rightarrow> state \<Rightarrow> error + outcome \<times> state" where
  "delete_task t st =
     (case list_remove t (tasks st) of
        Inl e \<Rightarrow> Inl e
      | Inr ts \<Rightarrow>
          Inr (Rerun (Some (Success ''Task deleted!'')), save_tasks ts (st\<lparr>tasks := ts\<rparr>)))"

text \<open>
  The body of the inner loop for the task at position \<open>i\<close>, shown in the column of
  status \<open>col\<close>. In edit mode the priority select box looks the task's priority up in its
  options, which raises \<^verbatim>\<open>ValueError\<close> when it is not one of them.
\<close>

definition task_card :: "widgets \<Rightarrow> string \<Rightarrow> nat \<Rightarrow> state \<Rightarrow> error + outcome \<times> state" where
  "task_card w col i st =
     (let t = tasks st ! i;
          edited =
            (if edit_mode w then
               (case index_of priority_names (priority t) of
                  Inl e \<Rightarrow> Inl e
                | Inr k \<Rightarrow>
                    (let new_name = text_input (name t) (name_entry w);
                         new_desc = text_input (description t) (desc_entry w);
                         new_deadline = date_input (deadline t) (deadline_entry w);
                         new_priority =
                           selectbox priority_names k (map_option priority_str (priority_choice w))
                     in if save_clicked w
                        then Inr (Some (save_changes i new_name new_desc new_deadline new_priority st))
                        else Inr None))
             else Inr None)
      in case edited of
           Inl e \<Rightarrow> Inl e
         | Inr (Some r) \<Rightarrow> Inr r
         | Inr None \<Rightarrow>
             (case index_of status_names col of
                Inl e \<Rightarrow> Inl e
              | Inr k \<Rightarrow>
                  (let new_status = selectbox status_names k (map_option status_str (status_choice w))
                   in if new_status \<noteq> col then Inr (update_status i new_status st)
                      else if delete_clicked w then delete_task t st
                      else Inr (Continue None, st))))"

text \<open>
  One column: the loop over \<^verbatim>\<open>tasks\<close> by position, showing the tasks of the column's
  status. A handler that changes anything ends the run, so the loop goes on only over
  an unchanged list.
\<close>

fun column :: "(int \<Rightarrow> widgets) \<Rightarrow> string \<Rightarrow> nat list \<Rightarrow> state \<Rightarrow> error + outcome \<times> state" where
  "column ui s [] st = Inr (Continue None, st)"
| "column ui s (i # is) st =
     (if status (tasks st ! i) = s then
        (case task_card (ui (task_id (tasks st ! i))) s i st of
           Inl e \<Rightarrow> Inl e
         | Inr (Rerun m, st') \<Rightarrow> Inr (Rerun m, st')
         | Inr (Continue m, st') \<Rightarrow> column ui s is st')
      else column ui s is st)"

fun columns :: "(int \<Rightarrow> widgets) \<Rightarrow> string list \<Rightarrow> state \<Rightarrow> error + outcome \<times> state" where
  "columns ui [] st = Inr (Continue None, st)"
| "columns ui (s # ss) st =
     (case column ui s [0..<length (tasks st)] st of
        Inl e \<Rightarrow> Inl e
      | Inr (Rerun m, st') \<Rightarrow> Inr (Rerun m, st')
      | Inr (Continue m, st') \<Rightarrow> columns ui ss st')"

definition board :: "(int \<Rightarrow> widgets) \<Rightarrow> state \<Rightarrow> error + outcome \<times> state" where
  "board ui st = columns ui status_names st"

section \<open>Deadline warnings\<close>

text \<open>
  The two filters over the data frame of all tasks. Each \<^verbatim>\<open>datetime.now()\<close> is a clock
  reading of its own: two in \<open>upcoming\<close>, one in \<open>overdue\<close>. A deadline is compared as
  the midnight that starts its day.
\<close>

definition upcoming :: "datetime \<Rightarrow> datetime \<Rightarrow> task list \<Rightarrow> task list" where
  "upcoming now1 now2 df =
     filter (\<lambda>t. to_datetime (deadline t) > now1 \<and> to_datetime (deadline t) \<le> now2 + timedelta 3) df"

definition overdue :: "datetime \<Rightarrow> task list \<Rightarrow> task list" where
  "overdue now3 df = filter (\<lambda>t. to_datetime (deadline t) < now3) df"

section \<open>User actions and reachable states\<close>

text \<open>
  A user action touches the widgets of one card; every other card is left alone and its
  widgets return their defaults.
\<close>

definition idle :: widgets where
  "idle = \<lparr>edit_mode = False, name_entry = None, desc_entry = None, deadline_entry = None,
            priority_choice = None, save_clicked = False, status_choice = None,
            delete_clicked = False\<rparr>"

definition on_card :: "int \<Rightarrow> widgets \<Rightarrow> int \<Rightarrow> widgets" where
  "on_card k w = (\<lambda>j. if j = k then w else idle)"

definition press_delete :: "int \<Rightarrow> int \<Rightarrow> widgets" where
  "press_delete k = on_card k (idle\<lparr>delete_clicked := True\<rparr>)"


definition edit_and_save ::
  "int \<Rightarrow> string option \<Rightarrow> string option \<Rightarrow> date option \<Rightarrow> priority_opt option \<Rightarrow> int \<Rightarrow> widgets" where
  "edit_and_save k nm desc dl prio =
     on_card k (idle\<lparr>edit_mode := True, name_entry := nm, desc_entry := desc,
                      deadline_entry := dl, priority_choice := prio, save_clicked := True\<rparr>)"


text \<open>The task at position \<open>i\<close> is the only one with id \<open>k\<close>.\<close>

definition sole :: "int \<Rightarrow> task list \<Rightarrow> nat \<Rightarrow> bool" where
  "sole k ts i \<longleftrightarrow>
     i < length ts \<and> task_id (ts ! i) = k \<and> (\<forall>j < length ts. task_id (ts ! j) = k \<longrightarrow> j = i)"

definition initial :: state where
  "initial = \<lparr>tasks = [], tasks_json = Absent, assets = Map.empty\<rparr>"



definition ids_unique :: "task list \<Rightarrow> bool" where
  "ids_unique ts \<longleftrightarrow> distinct (map task_id ts)"



section \<open>Sample data\<close>

definition task_a :: task where
  "task_a = \<lparr>task_id = 5, name = ''Write spec'', description = [], deadline = 739261,
              created = 739252, status = ''To Do'', priority = ''High'', attachment = []\<rparr>"

definition task_b :: task where
  "task_b = \<lparr>task_id = 7, name = ''Review'', description = ''second pass'', deadline = 739270,
              created = 739252, status = ''In Progress'', priority = ''Low'', attachment = []\<rparr>"

definition two_tasks :: state where
  "two_tasks = \<lparr>tasks = [task_a, task_b], tasks_json = Content [task_a, task_b],
                 assets = Map.empty\<rparr>"




section \<open>Storage\<close>

text \<open>
  C8: \<^verbatim>\<open>load_tasks\<close> returns the stored sequence of tasks in order; with no file it
  returns the empty sequence; with a file that does not parse it fails (the
  \<^verbatim>\<open>JSONDecodeError\<close> of \<^verbatim>\<open>json.load\<close>, which nothing catches).
\<close>

theorem load_tasks_cases:
  "load_tasks (Content ts) = Inr ts \<and> load_tasks Absent = Inr [] \<and>
   load_tasks Unparseable = Inl JSONDecodeError"
  by (simp add: load_tasks_def)

text \<open>
  C7: saving what was just loaded leaves the stored collection as it was: loading again
  gives the same sequence, and a file that existed is unchanged. (A missing file loads
  as the empty sequence and is then written as the empty array.)
\<close>

theorem save_load_roundtrip:
  assumes "load_tasks (tasks_json st) = Inr ts"
  shows "load_tasks (tasks_json (save_tasks ts st)) = Inr ts \<and>
         (tasks_json st \<noteq> Absent \<longrightarrow> save_tasks ts st = st)"
  using assms by (cases "tasks_json st") (auto simp: load_tasks_def save_tasks_def)

theorem save_load_roundtrip_witness:
  "load_tasks (tasks_json (save_tasks [task_a, task_b] two_tasks)) = Inr [task_a, task_b] \<and>
   save_tasks [task_a, task_b] two_tasks = two_tasks"
proof -
  have h: "load_tasks (tasks_json two_tasks) = Inr [task_a, task_b]"
    by (simp add: load_tasks_def two_tasks_def)
  show ?thesis using save_load_roundtrip [OF h] by (simp add: two_tasks_def load_tasks_def)
qed

section \<open>Creating a task\<close>

text \<open>
  C1, as amended: \<^verbatim>\<open>add_task\<close> appends one task whose id is the clock reading, whose
  status is To Do, whose creation date is the current date and whose other fields are
  the inputs, and saves; loading the file then gives the old collection followed by
  that task. The id is new to the collection when no task carries that clock reading:
  then unique ids stay unique.
\<close>

theorem add_task_appends:
  fixes st :: state
  assumes "t = \<lparr>task_id = timestamp now1, name = nm, description = desc, deadline = dl,
                 created = date_of now2, status = ''To Do'', priority = prio, attachment = att\<rparr>"
    and "st' = add_task now1 now2 nm desc dl prio att st"
  shows "tasks st' = tasks st @ [t] \<and>
         length (tasks st') = Suc (length (tasks st)) \<and>
         tasks_json st' = Content (tasks st @ [t]) \<and>
         load_tasks (tasks_json st') = Inr (tasks st @ [t]) \<and>
         (ids_unique (tasks st) \<and> timestamp now1 \<notin> task_id ` set (tasks st)
            \<longrightarrow> ids_unique (tasks st'))"
  using assms by (auto simp: add_task_def save_tasks_def load_tasks_def ids_unique_def Let_def)

theorem add_task_appends_witness:
  "tasks (add_task 9 9 ''Plan'' ''x'' 739262 ''Medium'' [] two_tasks) =
     [task_a, task_b,
      \<lparr>task_id = 9, name = ''Plan'', description = ''x'', deadline = 739262, created = 0,
       status = ''To Do'', priority = ''Medium'', attachment = []\<rparr>] \<and>
   ids_unique (tasks (add_task 9 9 ''Plan'' ''x'' 739262 ''Medium'' [] two_tasks))"
proof -
  have tt: "tasks two_tasks = [task_a, task_b]" by (simp add: two_tasks_def)
  have u: "ids_unique (tasks two_tasks) \<and> timestamp 9 \<notin> task_id ` set (tasks two_tasks)"
    by (simp add: ids_unique_def two_tasks_def task_a_def task_b_def timestamp_def)
  show ?thesis
    using u add_task_appends [OF refl refl, where ?now1.0 = 9 and ?now2.0 = 9 and nm = "''Plan''" and desc = "''x''"
        and dl = 739262 and prio = "''Medium''" and att = "[]" and st = two_tasks]
    by (auto simp: tt timestamp_def date_of_def usec_per_day_def)
qed

text \<open>
  C1 as stated fails: two creations that read the same clock value give two tasks with
  the same id.
\<close>

theorem add_task_id_collision:
  "\<not> ids_unique (tasks (add_task 5 6 ''Again'' [] 739262 ''Low'' []
        (add_task 5 5 ''Write spec'' [] 739261 ''High'' [] initial)))"
  by (simp add: add_task_def save_tasks_def ids_unique_def initial_def Let_def timestamp_def)

text \<open>
  C2: submitting the creation form with an empty title shows the warning that a title
  is required and changes neither the collection nor the file nor the attachments.
\<close>

theorem task_form_empty_name:
  "task_form now1 now2 [] desc dl prio file True st =
     (Continue (Some (Warning ''Task name required.'')), st)"
  by (simp add: task_form_def)

section \<open>The board: which card acts\<close>

text \<open>
  \<^verbatim>\<open>list.index\<close> finds a member, and a card whose widgets are untouched does nothing.
\<close>

lemma index_of_mem: "x \<in> set xs \<Longrightarrow> \<exists>k. index_of xs x = Inr k \<and> k < length xs \<and> xs ! k = x"
  by (induction xs) auto




lemma task_card_idle:
  assumes "col \<in> set status_names"
  shows "task_card idle col i st = Inr (Continue None, st)"
proof -
  obtain k where "index_of status_names col = Inr k" "status_names ! k = col"
    using index_of_mem [OF assms] by blast
  then show ?thesis
    by (simp add: task_card_def idle_def selectbox_def)
qed

lemma task_card_Continue:
  assumes "task_card w col i st = Inr (Continue m, st')"
  shows "st' = st \<and> m = None"
  using assms
  by (auto simp: task_card_def Let_def save_changes_def update_status_def delete_task_def
      list_remove_def split: sum.splits option.splits if_splits)

text \<open>
  A column walks on while no card acts, and a walk over two stretches of positions is the
  walk over the first followed, when it goes on, by the walk over the second.
\<close>

lemma column_quiet:
  assumes "\<And>i. i \<in> set is \<Longrightarrow> status (tasks st ! i) = s \<Longrightarrow>
             task_card (ui (task_id (tasks st ! i))) s i st = Inr (Continue None, st)"
  shows "column ui s is st = Inr (Continue None, st)"
  using assms by (induction "is") auto

lemma column_append:
  "column ui s (xs @ ys) st =
     (case column ui s xs st of
        Inl e \<Rightarrow> Inl e
      | Inr (Rerun m, st') \<Rightarrow> Inr (Rerun m, st')
      | Inr (Continue m, st') \<Rightarrow> column ui s ys st')"
  by (induction xs arbitrary: st) (auto split: sum.splits outcome.splits prod.splits)

lemma column_other:
  assumes "s \<in> set status_names"
    and "\<And>i. i \<in> set is \<Longrightarrow> status (tasks st ! i) = s \<Longrightarrow> task_id (tasks st ! i) \<noteq> k"
  shows "column (on_card k w) s is st = Inr (Continue None, st)"
  using assms by (intro column_quiet) (simp add: on_card_def task_card_idle)

text \<open>
  When the user acts on the card keyed \<open>k\<close> and one task only has id \<open>k\<close>, the board
  does what that card does; when no shown task has id \<open>k\<close>, nothing happens.
\<close>

lemma column_sole:
  assumes "sole k (tasks st) i0" and "status (tasks st ! i0) = s" and "s \<in> set status_names"
  shows "column (on_card k w) s [0..<length (tasks st)] st = task_card w s i0 st"
proof -
  let ?n = "length (tasks st)"
  from assms(1) have i0: "i0 < ?n" and k: "task_id (tasks st ! i0) = k"
    and uniq: "\<And>j. j < ?n \<Longrightarrow> task_id (tasks st ! j) = k \<Longrightarrow> j = i0"
    by (auto simp: sole_def)
  have split: "[0..<?n] = [0..<i0] @ i0 # [Suc i0..<?n]"
    using i0 by (metis le0 less_imp_le_nat upt_add_eq_append upt_conv_Cons le_add_diff_inverse)
  have ne: "\<And>j. j < ?n \<Longrightarrow> j \<noteq> i0 \<Longrightarrow> task_id (tasks st ! j) \<noteq> k"
    using uniq by blast
  have before: "column (on_card k w) s [0..<i0] st = Inr (Continue None, st)"
    using assms(3) ne i0 by (intro column_other) auto
  have after: "column (on_card k w) s [Suc i0..<?n] st = Inr (Continue None, st)"
    using assms(3) ne by (intro column_other) auto
  have here: "column (on_card k w) s (i0 # [Suc i0..<?n]) st = task_card w s i0 st"
  proof (cases "task_card w s i0 st")
    case (Inl e)
    then show ?thesis using assms(2) k by (simp add: on_card_def)
  next
    case (Inr r)
    obtain oc st' where r: "r = (oc, st')" by (cases r)
    show ?thesis
    proof (cases oc)
      case (Continue m)
      with Inr r have "st' = st \<and> m = None" using task_card_Continue by blast
      with Inr r Continue after show ?thesis using assms(2) k by (simp add: on_card_def)
    next
      case (Rerun m)
      with Inr r show ?thesis using assms(2) k by (simp add: on_card_def)
    qed
  qed
  show ?thesis
    by (subst split, subst column_append) (simp only: before here sum.case outcome.case prod.case)
qed

lemma columns_other:
  assumes "set ss \<subseteq> set status_names"
    and "\<And>i. i < length (tasks st) \<Longrightarrow> status (tasks st ! i) \<in> set ss \<Longrightarrow> task_id (tasks st ! i) \<noteq> k"
  shows "columns (on_card k w) ss st = Inr (Continue None, st)"
  using assms
proof (induction ss)
  case Nil
  then show ?case by simp
next
  case (Cons s ss)
  have "column (on_card k w) s [0..<length (tasks st)] st = Inr (Continue None, st)"
    using Cons.prems by (intro column_other) auto
  moreover have "columns (on_card k w) ss st = Inr (Continue None, st)"
    using Cons.prems by (intro Cons.IH) auto
  ultimately show ?case by simp
qed

lemma columns_sole:
  assumes "sole k (tasks st) i0" and "status (tasks st ! i0) \<in> set ss"
    and "set ss \<subseteq> set status_names"
  shows "columns (on_card k w) ss st = task_card w (status (tasks st ! i0)) i0 st"
  using assms(2,3)
proof (induction ss)
  case Nil
  then show ?case by simp
next
  case (Cons s ss)
  let ?s0 = "status (tasks st ! i0)"
  from assms(1) have uniq: "\<And>j. j < length (tasks st) \<Longrightarrow> task_id (tasks st ! j) = k \<Longrightarrow> j = i0"
    by (auto simp: sole_def)
  have rest: "task_card w ?s0 i0 st = Inr (Continue None, st) \<Longrightarrow>
      columns (on_card k w) ss st = Inr (Continue None, st)"
  proof (cases "?s0 \<in> set ss")
    case True
    assume "task_card w ?s0 i0 st = Inr (Continue None, st)"
    with Cons.IH [OF True] Cons.prems(2) show ?thesis by simp
  next
    case False
    then show ?thesis using Cons.prems(2) uniq by (intro columns_other) auto
  qed
  show ?case
  proof (cases "s = ?s0")
    case True
    have col: "column (on_card k w) s [0..<length (tasks st)] st = task_card w ?s0 i0 st"
      using column_sole [OF assms(1), of s w] True Cons.prems(2) by simp
    show ?thesis
    proof (cases "task_card w ?s0 i0 st")
      case (Inl e)
      with col show ?thesis by simp
    next
      case (Inr r)
      obtain oc st' where r: "r = (oc, st')" by (cases r)
      show ?thesis
      proof (cases oc)
        case (Continue m)
        with Inr r have eq: "st' = st \<and> m = None" using task_card_Continue by blast
        with Inr r Continue have "task_card w ?s0 i0 st = Inr (Continue None, st)" by simp
        with rest col show ?thesis by simp
      next
        case (Rerun m)
        with Inr r col show ?thesis by simp
      qed
    qed
  next
    case False
    have "column (on_card k w) s [0..<length (tasks st)] st = Inr (Continue None, st)"
      using Cons.prems(2) False uniq by (intro column_other) auto
    moreover have "?s0 \<in> set ss" using Cons.prems(1) False by auto
    ultimately show ?thesis using Cons.IH Cons.prems(2) by simp
  qed
qed

lemma board_sole:
  assumes "sole k (tasks st) i" and "status (tasks st ! i) \<in> set status_names"
  shows "board (on_card k w) st = task_card w (status (tasks st ! i)) i st"
  unfolding board_def using assms by (intro columns_sole) auto

lemma board_absent:
  assumes "\<And>i. i < length (tasks st) \<Longrightarrow> status (tasks st ! i) \<in> set status_names \<Longrightarrow> task_id (tasks st ! i) \<noteq> k"
  shows "board (on_card k w) st = Inr (Continue None, st)"
  unfolding board_def using assms by (intro columns_other) auto

text \<open>
  The three handlers of a card, each reached by its own gesture.
\<close>

lemma task_card_delete:
  assumes "col \<in> set status_names"
  shows "task_card (idle\<lparr>delete_clicked := True\<rparr>) col i st = delete_task (tasks st ! i) st"
proof -
  obtain k where "index_of status_names col = Inr k" "status_names ! k = col"
    using index_of_mem [OF assms] by blast
  then show ?thesis
    by (simp add: task_card_def idle_def selectbox_def)
qed


lemma task_card_save:
  assumes "priority (tasks st ! i) \<in> set priority_names"
  shows "task_card (idle\<lparr>edit_mode := True, name_entry := nm, desc_entry := desc,
                         deadline_entry := dl, priority_choice := prio, save_clicked := True\<rparr>) col i st =
           Inr (save_changes i (text_input (name (tasks st ! i)) nm)
                  (text_input (description (tasks st ! i)) desc)
                  (date_input (deadline (tasks st ! i)) dl)
                  (case prio of None \<Rightarrow> priority (tasks st ! i) | Some p \<Rightarrow> priority_str p) st)"
proof -
  obtain k where "index_of priority_names (priority (tasks st ! i)) = Inr k"
    "priority_names ! k = priority (tasks st ! i)"
    using index_of_mem [OF assms] by blast
  then show ?thesis
    by (cases prio) (simp_all add: task_card_def idle_def selectbox_def Let_def)
qed


lemma remove1_nth:
  assumes "i < length xs" and "xs ! i \<notin> set (take i xs)"
  shows "remove1 (xs ! i) xs = take i xs @ drop (Suc i) xs"
proof -
  have "xs = take i xs @ xs ! i # drop (Suc i) xs"
    using assms(1) by (rule id_take_nth_drop)
  then have "remove1 (xs ! i) xs = remove1 (xs ! i) (take i xs @ xs ! i # drop (Suc i) xs)"
    by simp
  also have "\<dots> = take i xs @ drop (Suc i) xs"
    using assms(2) by (simp add: remove1_append)
  finally show ?thesis .
qed

lemma sole_not_before:
  assumes "sole k ts i"
  shows "ts ! i \<notin> set (take i ts)" and "k \<notin> task_id ` set (take i ts @ drop (Suc i) ts)"
proof -
  from assms have i: "i < length ts" and k: "task_id (ts ! i) = k"
    and uniq: "\<And>j. j < length ts \<Longrightarrow> task_id (ts ! j) = k \<Longrightarrow> j = i"
    by (auto simp: sole_def)
  have before: "task_id x \<noteq> k" if "x \<in> set (take i ts)" for x
  proof -
    from that obtain j where "j < i" "x = ts ! j"
      using i by (auto simp: in_set_conv_nth)
    with uniq [of j] i show ?thesis by auto
  qed
  have after: "task_id x \<noteq> k" if "x \<in> set (drop (Suc i) ts)" for x
  proof -
    from that obtain j where "j < length ts - Suc i" "x = ts ! (Suc i + j)"
      by (auto simp: in_set_conv_nth)
    moreover from this have "Suc i + j < length ts" by arith
    ultimately show ?thesis using uniq [of "Suc i + j"] by auto
  qed
  show "ts ! i \<notin> set (take i ts)" using before k by blast
  show "k \<notin> task_id ` set (take i ts @ drop (Suc i) ts)" using before after by auto
qed

lemma sole_two_tasks: "sole 5 (tasks two_tasks) 0" "sole 7 (tasks two_tasks) (Suc 0)"
  by (auto simp: sole_def two_tasks_def task_a_def task_b_def less_Suc_eq)

section \<open>Deleting a task\<close>

text \<open>
  C10: the delete handler removes exactly one element, the first one equal to the
  task it is called on, and keeps the order of the others: the collection \<open>pre @ t # post\<close>
  with no \<open>t\<close> in \<open>pre\<close> becomes \<open>pre @ post\<close>, in memory and in the file.
\<close>

theorem delete_task_excises:
  assumes "t \<in> set (tasks st)"
  shows "\<exists>pre post. tasks st = pre @ t # post \<and> t \<notin> set pre \<and>
           delete_task t st =
             Inr (Rerun (Some (Success ''Task deleted!'')),
                  st\<lparr>tasks := pre @ post, tasks_json := Content (pre @ post)\<rparr>)"
proof -
  from assms obtain pre post where sp: "tasks st = pre @ t # post" "t \<notin> set pre"
    by (auto dest: split_list_first)
  then have "remove1 t (tasks st) = pre @ post"
    by (simp add: remove1_append)
  with sp assms show ?thesis
    by (auto simp: delete_task_def list_remove_def save_tasks_def)
qed

theorem delete_task_excises_witness:
  "delete_task task_b \<lparr>tasks = [task_a, task_b, task_a, task_b], tasks_json = Absent, assets = Map.empty\<rparr> =
     Inr (Rerun (Some (Success ''Task deleted!'')),
          \<lparr>tasks = [task_a, task_a, task_b], tasks_json = Content [task_a, task_a, task_b],
           assets = Map.empty\<rparr>)"
proof -
  have ne: "task_a \<noteq> task_b" by (simp add: task_a_def task_b_def)
  have h: "task_b \<in> set (tasks \<lparr>tasks = [task_a, task_b, task_a, task_b], tasks_json = Absent, assets = Map.empty\<rparr>)"
    by simp
  from delete_task_excises [OF h] obtain pre post where
    a: "[task_a, task_b, task_a, task_b] = pre @ task_b # post" and b: "task_b \<notin> set pre"
    and c: "delete_task task_b \<lparr>tasks = [task_a, task_b, task_a, task_b], tasks_json = Absent, assets = Map.empty\<rparr> =
             Inr (Rerun (Some (Success ''Task deleted!'')),
                  \<lparr>tasks = [task_a, task_b, task_a, task_b], tasks_json = Absent, assets = Map.empty\<rparr>
                    \<lparr>tasks := pre @ post, tasks_json := Content (pre @ post)\<rparr>)"
    by auto
  from a b ne have "pre = [task_a] \<and> post = [task_a, task_b]"
    by (cases pre; cases "tl pre") (auto simp: Cons_eq_append_conv)
  with c show ?thesis by simp
qed

text \<open>
  C4, as amended: pressing the delete button of the card keyed \<open>k\<close>, when exactly one
  task has id \<open>k\<close> and it is shown on the board, removes that task and saves, so that the
  file then holds a collection without id \<open>k\<close>. When no task has id \<open>k\<close> there is no such
  card: nothing happens, no error is raised, and collection and file are unchanged.
\<close>

theorem press_delete_removes:
  "(sole k (tasks st) i \<and> status (tasks st ! i) \<in> set status_names \<longrightarrow>
      board (press_delete k) st =
        Inr (Rerun (Some (Success ''Task deleted!'')),
             st\<lparr>tasks := take i (tasks st) @ drop (Suc i) (tasks st),
                tasks_json := Content (take i (tasks st) @ drop (Suc i) (tasks st))\<rparr>) \<and>
      load_tasks (Content (take i (tasks st) @ drop (Suc i) (tasks st))) =
        Inr (take i (tasks st) @ drop (Suc i) (tasks st)) \<and>
      k \<notin> task_id ` set (take i (tasks st) @ drop (Suc i) (tasks st))) \<and>
   (k \<notin> task_id ` set (tasks st) \<longrightarrow> board (press_delete k) st = Inr (Continue None, st))"
proof (intro conjI impI)
  assume a: "sole k (tasks st) i \<and> status (tasks st ! i) \<in> set status_names"
  then have sole: "sole k (tasks st) i" and st: "status (tasks st ! i) \<in> set status_names"
    by simp_all
  from sole have i: "i < length (tasks st)" by (simp add: sole_def)
  have rm: "remove1 (tasks st ! i) (tasks st) = take i (tasks st) @ drop (Suc i) (tasks st)"
    using i sole_not_before(1) [OF sole] by (rule remove1_nth)
  have "board (press_delete k) st =
      task_card (idle\<lparr>delete_clicked := True\<rparr>) (status (tasks st ! i)) i st"
    unfolding press_delete_def using sole st by (rule board_sole)
  also have "\<dots> = delete_task (tasks st ! i) st"
    using st by (rule task_card_delete)
  also have "\<dots> = Inr (Rerun (Some (Success ''Task deleted!'')),
             st\<lparr>tasks := take i (tasks st) @ drop (Suc i) (tasks st),
                tasks_json := Content (take i (tasks st) @ drop (Suc i) (tasks st))\<rparr>)"
    using i rm by (simp add: delete_task_def list_remove_def save_tasks_def)
  finally show "board (press_delete k) st =
        Inr (Rerun (Some (Success ''Task deleted!'')),
             st\<lparr>tasks := take i (tasks st) @ drop (Suc i) (tasks st),
                tasks_json := Content (take i (tasks st) @ drop (Suc i) (tasks st))\<rparr>)" .
  show "load_tasks (Content (take i (tasks st) @ drop (Suc i) (tasks st))) =
        Inr (take i (tasks st) @ drop (Suc i) (tasks st))"
    by (simp add: load_tasks_def)
  show "k \<notin> task_id ` set (take i (tasks st) @ drop (Suc i) (tasks st))"
    using sole by (rule sole_not_before(2))
next
  assume "k \<notin> task_id ` set (tasks st)"
  then have "\<And>i. i < length (tasks st) \<Longrightarrow> task_id (tasks st ! i) \<noteq> k"
    by (metis image_eqI nth_mem)
  then show "board (press_delete k) st = Inr (Continue None, st)"
    unfolding press_delete_def by (intro board_absent) auto
qed

theorem press_delete_removes_witness:
  "board (press_delete 5) two_tasks =
     Inr (Rerun (Some (Success ''Task deleted!'')),
          \<lparr>tasks = [task_b], tasks_json = Content [task_b], assets = Map.empty\<rparr>) \<and>
   board (press_delete 9) two_tasks = Inr (Continue None, two_tasks)"
proof -
  have tt: "tasks two_tasks = [task_a, task_b]" by (simp add: two_tasks_def)
  have s: "sole 5 (tasks two_tasks) 0 \<and> status (tasks two_tasks ! 0) \<in> set status_names"
    using sole_two_tasks(1) by (simp add: tt task_a_def status_names_def)
  have n: "9 \<notin> task_id ` set (tasks two_tasks)"
    by (simp add: tt task_a_def task_b_def)
  have one: "board (press_delete 5) two_tasks =
     Inr (Rerun (Some (Success ''Task deleted!'')),
          two_tasks\<lparr>tasks := take 0 (tasks two_tasks) @ drop (Suc 0) (tasks two_tasks),
             tasks_json := Content (take 0 (tasks two_tasks) @ drop (Suc 0) (tasks two_tasks))\<rparr>)"
    by (rule press_delete_removes [THEN conjunct1, THEN mp, OF s, THEN conjunct1])
  have two: "board (press_delete 9) two_tasks = Inr (Continue None, two_tasks)"
    by (rule press_delete_removes [THEN conjunct2, THEN mp, OF n])
  from one two show ?thesis by (simp add: tt two_tasks_def)
qed

text \<open>
  C4 as stated fails: a delete aimed at an id that no task has does not fail, it is a
  silent no-op.
\<close>

theorem press_delete_absent_no_error:
  "board (press_delete 9) two_tasks = Inr (Continue None, two_tasks)"
proof -
  have "\<And>i. i < length (tasks two_tasks) \<Longrightarrow> task_id (tasks two_tasks ! i) \<noteq> 9"
    by (auto simp: two_tasks_def task_a_def task_b_def less_Suc_eq)
  then show ?thesis
    unfolding press_delete_def by (intro board_absent) auto
qed

section \<open>A collection with a repeated id\<close>




section \<open>Editing a task\<close>

lemma edit_and_save_board:
  assumes "sole k (tasks st) i"
    and "status (tasks st ! i) \<in> set status_names"
    and "priority (tasks st ! i) \<in> set priority_names"
  shows "board (edit_and_save k nm desc dl prio) st =
           Inr (save_changes i (text_input (name (tasks st ! i)) nm)
                  (text_input (description (tasks st ! i)) desc)
                  (date_input (deadline (tasks st ! i)) dl)
                  (case prio of None \<Rightarrow> priority (tasks st ! i) | Some p \<Rightarrow> priority_str p) st)"
proof -
  have "board (edit_and_save k nm desc dl prio) st =
      task_card (idle\<lparr>edit_mode := True, name_entry := nm, desc_entry := desc,
                       deadline_entry := dl, priority_choice := prio, save_clicked := True\<rparr>)
        (status (tasks st ! i)) i st"
    unfolding edit_and_save_def using assms(1,2) by (rule board_sole)
  then show ?thesis by (simp add: task_card_save [OF assms(3)])
qed




section \<open>Setting status and priority\<close>






section \<open>Invariants of the reachable states\<close>



















text \<open>
  The Save Changes handler stores the title as entered, also when it is empty; the
  creation form refuses an empty title.
\<close>

lemma edit_stores_empty_title:
  "board (edit_and_save 5 (Some []) None None None) two_tasks =
     Inr (Rerun (Some (Success ''Task updated!'')),
          \<lparr>tasks = [task_a\<lparr>name := []\<rparr>, task_b],
           tasks_json = Content [task_a\<lparr>name := []\<rparr>, task_b], assets = Map.empty\<rparr>)"
proof -
  have tt: "tasks two_tasks = [task_a, task_b]" by (simp add: two_tasks_def)
  have s: "status (tasks two_tasks ! 0) \<in> set status_names"
    by (simp add: tt task_a_def status_names_def)
  have p: "priority (tasks two_tasks ! 0) \<in> set priority_names"
    by (simp add: tt task_a_def priority_names_def)
  show ?thesis
    using edit_and_save_board [OF sole_two_tasks(1) s p, of "Some []" None None None]
    by (simp add: tt two_tasks_def save_changes_def save_tasks_def text_input_def date_input_def
        Let_def)
qed




section \<open>Deadline warnings\<close>

lemma date_of_bounds:
  assumes "date_of now = d"
  shows "to_datetime d \<le> now \<and> now < to_datetime (d + 1)"
proof -
  have pos: "0 < usec_per_day" by (simp add: usec_per_day_def)
  have "now = (now div usec_per_day) * usec_per_day + now mod usec_per_day" by simp
  moreover have "0 \<le> now mod usec_per_day" "now mod usec_per_day < usec_per_day"
    using pos by simp_all
  ultimately show ?thesis
    using assms unfolding date_of_def to_datetime_def
    by (metis add.commute add_strict_left_mono distrib_right le_add_same_cancel2 mult_1)
qed

text \<open>
  C9: at a clock reading \<open>now\<close>, the upcoming list holds exactly the tasks whose deadline
  is after \<open>now\<close> and at most three days after it, and the overdue list exactly those
  whose deadline is before \<open>now\<close>; both keep the order of the collection. For two tasks
  due tomorrow and in ten days, the upcoming list is the first alone, whatever the time
  of day of the two clock readings.
\<close>

theorem deadline_warnings:
  "(t \<in> set (upcoming now now df) \<longleftrightarrow>
      t \<in> set df \<and> now < to_datetime (deadline t) \<and> to_datetime (deadline t) \<le> now + timedelta 3) \<and>
   (t \<in> set (overdue now df) \<longleftrightarrow> t \<in> set df \<and> to_datetime (deadline t) < now) \<and>
   upcoming now1 now2 df =
     filter (\<lambda>t. now1 < to_datetime (deadline t) \<and> to_datetime (deadline t) \<le> now2 + timedelta 3) df \<and>
   overdue now3 df = filter (\<lambda>t. to_datetime (deadline t) < now3) df \<and>
   (date_of now1 = today \<and> date_of now2 = today \<and> deadline a = today + 1 \<and> deadline b = today + 10
      \<longrightarrow> upcoming now1 now2 [a, b] = [a])"
proof -
  have scenario: "upcoming now1 now2 [a, b] = [a]"
    if h: "date_of now1 = today" "date_of now2 = today" "deadline a = today + 1" "deadline b = today + 10"
  proof -
    have pos: "0 < usec_per_day" by (simp add: usec_per_day_def)
    from date_of_bounds [OF h(1)] date_of_bounds [OF h(2)]
    have b: "now1 < (today + 1) * usec_per_day" "today * usec_per_day \<le> now2"
      "now2 < (today + 1) * usec_per_day"
      by (simp_all add: to_datetime_def)
    have a_in: "now1 < to_datetime (deadline a) \<and> to_datetime (deadline a) \<le> now2 + timedelta 3"
      using b pos h(3) by (simp add: to_datetime_def timedelta_def algebra_simps)
    have "now2 + 3 * usec_per_day < (today + 10) * usec_per_day"
      using b pos by (simp add: algebra_simps)
    then have b_out: "\<not> to_datetime (deadline b) \<le> now2 + timedelta 3"
      using h(4) by (simp add: to_datetime_def timedelta_def)
    show ?thesis using a_in b_out by (simp add: upcoming_def)
  qed
  show ?thesis using scenario by (auto simp: upcoming_def overdue_def)
qed

theorem deadline_warnings_witness:
  "upcoming (739260 * 86400000000 + 1000) (739260 * 86400000000 + 1002) [task_a, task_b] = [task_a]"
proof -
  have h: "date_of (739260 * 86400000000 + 1000) = 739260 \<and>
           date_of (739260 * 86400000000 + 1002) = 739260 \<and>
           deadline task_a = 739260 + 1 \<and> deadline task_b = 739260 + 10"
    by (simp add: date_of_def usec_per_day_def task_a_def task_b_def)
  show ?thesis
    by (rule deadline_warnings [THEN conjunct2, THEN conjunct2, THEN conjunct2, THEN conjunct2,
          THEN mp, OF h])
qed

end
